theory Spec2Isabelle
  imports Complex_Main
begin

section \<open>The plant simulation of \<open>Plant-Game.tsx\<close>\<close>

text \<open>
  The component \<open>App\<close> keeps its simulation state in React state cells and refs and changes
  it only from callbacks of one event loop: two intervals (moisture every 100ms, bad leaf
  every 1000ms), three kinds of timeouts (hold, watering session, prune), three pointer
  handlers, the click handler and the animation frame. Each callback is a function on the
  record \<open>state\<close> below.

  JavaScript numbers are modelled as real numbers (exact arithmetic, no rounding).
  Time is a virtual clock in milliseconds; a timeout is a pending entry with its due time.
  The current value of a spring is computed by the animation library, outside the
  component: the model takes the values the library has reached as an input of the event
  \<open>SpringFrame\<close> and keeps only what the component itself sets (goal and configuration).
\<close>

subsection \<open>Data\<close>

datatype easing = Spring real real | Duration nat

record spring =
  svalue :: real
  goal :: real
  config :: easing

datatype material = HealthyMaterial | BadMaterial

record mesh =
  material :: material
  scale :: real
  index :: nat

datatype action = HoldFire | WateringFire | PruneFire nat

type_synonym timer = "nat \<times> nat \<times> action"

datatype error = TypeError

record state =
  leafRefs :: "mesh list"
  badLeaves :: "nat set"
  leafSprings :: "spring list"
  growthLevel :: real
  growthLevelRef :: real
  waterLevel :: real
  waterLevelRef :: real
  watering :: bool
  showWaterEffect :: bool
  holding :: bool
  wateringTimeout :: "nat option"
  holdTimeout :: "nat option"
  now :: nat
  nextTimer :: nat
  timers :: "timer list"

subsection \<open>Initial render and mount\<close>

text \<open>\<open>useSprings(7, i => ({ scale: 1, config: { tension: 180, friction: 18 } }))\<close>:
  a spring created without \<open>from\<close> starts at rest at the given value.\<close>

definition useSprings :: "nat \<Rightarrow> (nat \<Rightarrow> real \<times> easing) \<Rightarrow> spring list" where
  "useSprings n f =
     map (\<lambda>i. \<lparr>svalue = fst (f i), goal = fst (f i), config = snd (f i)\<rparr>) [0..<n]"

definition init :: state where
  "init = \<lparr>leafRefs = [], badLeaves = {},
           leafSprings = useSprings 7 (\<lambda>i. (1, Spring 180 18)),
           growthLevel = 0, growthLevelRef = 0,
           waterLevel = 1, waterLevelRef = 1,
           watering = False, showWaterEffect = False, holding = False,
           wateringTimeout = None, holdTimeout = None,
           now = 0, nextTimer = 1, timers = []\<rparr>"

text \<open>\<open>api.start(fn)\<close>: \<open>fn idx\<close> gives the new goal and configuration of spring \<open>idx\<close>,
  or nothing (the empty props object), which leaves the spring as it is.\<close>

definition api_start :: "(nat \<Rightarrow> (real \<times> easing) option) \<Rightarrow> spring list \<Rightarrow> spring list" where
  "api_start f sps =
     map (\<lambda>(idx, sp). case f idx of None \<Rightarrow> sp
                        | Some (g, c) \<Rightarrow> sp\<lparr>goal := g, config := c\<rparr>)
         (enumerate 0 sps)"

definition createLeaf :: "nat \<Rightarrow> mesh" where
  "createLeaf i = \<lparr>material = HealthyMaterial, scale = 0, index = i\<rparr>"

definition leafCount :: nat where
  "leafCount = 6"

text \<open>The mount effect: six side leaves and the top leaf, all with mesh scale 0, then
  \<open>api.start(i => ({ scale: 1, config: { tension: 180, friction: 18 } }))\<close>.\<close>

definition mount :: "state \<Rightarrow> state" where
  "mount s =
     (let side = map createLeaf [0..<leafCount];
          topLeaf = createLeaf 6
      in s\<lparr>leafRefs := side @ [topLeaf],
           leafSprings := api_start (\<lambda>i. Some (1, Spring 180 18)) (leafSprings s)\<rparr>)"

definition start :: state where
  "start = mount init"

subsection \<open>Water level (the 100ms interval)\<close>

definition chargeTick :: "state \<Rightarrow> state" where
  "chargeTick s =
     (let w = waterLevel s; next = min 1 (w + 0.02)
      in s\<lparr>waterLevelRef := next, waterLevel := next\<rparr>)"

definition decayTick :: "state \<Rightarrow> state" where
  "decayTick s =
     (let w = waterLevel s; next = max 0 (w - 0.002)
      in s\<lparr>waterLevelRef := next, waterLevel := next\<rparr>)"

text \<open>The effect depends on \<open>watering\<close>: it installs the charging interval when
  \<open>watering\<close> holds and the decaying one otherwise, clearing the other.\<close>

definition moistureTick :: "state \<Rightarrow> state" where
  "moistureTick s = (if watering s then chargeTick s else decayTick s)"

subsection \<open>Timeouts\<close>

definition setTimeout :: "action \<Rightarrow> nat \<Rightarrow> state \<Rightarrow> nat \<times> state" where
  "setTimeout a delay s =
     (nextTimer s,
      s\<lparr>timers := timers s @ [(nextTimer s, now s + delay, a)],
        nextTimer := Suc (nextTimer s)\<rparr>)"

definition clearTimeout :: "nat \<Rightarrow> state \<Rightarrow> state" where
  "clearTimeout h s = s\<lparr>timers := filter (\<lambda>(i, d, a). i \<noteq> h) (timers s)\<rparr>"

text \<open>\<open>if (ref.current) clearTimeout(ref.current)\<close>\<close>

definition clearRef :: "nat option \<Rightarrow> state \<Rightarrow> state" where
  "clearRef r s = (case r of None \<Rightarrow> s | Some h \<Rightarrow> clearTimeout h s)"

subsection \<open>Watering hold logic\<close>

definition wateringFire :: "state \<Rightarrow> state" where
  "wateringFire s = s\<lparr>watering := False, showWaterEffect := False\<rparr>"

definition holdFire :: "state \<Rightarrow> state" where
  "holdFire s =
     (let s1 = s\<lparr>watering := True, showWaterEffect := True\<rparr>;
          (h, s2) = setTimeout WateringFire 1200 s1
      in s2\<lparr>wateringTimeout := Some h\<rparr>)"

definition handlePlantAreaPointerDown :: "state \<Rightarrow> state" where
  "handlePlantAreaPointerDown s =
     (let s1 = clearRef (wateringTimeout s) s;
          s2 = s1\<lparr>holding := True\<rparr>;
          (h, s3) = setTimeout HoldFire 1000 s2
      in s3\<lparr>holdTimeout := Some h\<rparr>)"

definition handlePlantAreaPointerUp :: "state \<Rightarrow> state" where
  "handlePlantAreaPointerUp s =
     (let s1 = s\<lparr>holding := False\<rparr>;
          s2 = clearRef (holdTimeout s1) s1;
          s3 = clearRef (wateringTimeout s2) s2
      in if watering s3 then s3\<lparr>watering := False, showWaterEffect := False\<rparr> else s3)"

definition handlePlantAreaPointerLeave :: "state \<Rightarrow> state" where
  "handlePlantAreaPointerLeave s =
     (let s1 = s\<lparr>holding := False\<rparr>;
          s2 = clearRef (holdTimeout s1) s1;
          s3 = clearRef (wateringTimeout s2) s2
      in if watering s3 then s3\<lparr>watering := False, showWaterEffect := False\<rparr> else s3)"

subsection \<open>Bad leaf logic (the 1000ms interval)\<close>

definition getBadLeafChance :: "state \<Rightarrow> real" where
  "getBadLeafChance s = 0.01 + (1 - waterLevelRef s) * 0.24"

text \<open>The callback, given the two values \<open>Math.random()\<close> returns (the second is drawn
  only when the first is below the chance). An index outside \<open>candidates\<close> reads
  \<open>undefined\<close>, and the assignment to \<open>leaf.material\<close> then throws before anything is
  changed.\<close>

definition badLeafTick :: "real \<Rightarrow> real \<Rightarrow> state \<Rightarrow> error + state" where
  "badLeafTick r1 r2 s =
     (let chance = getBadLeafChance s
      in if r1 < chance then
           (let candidates = filter (\<lambda>i. i \<notin> badLeaves s) [0..<length (leafRefs s)]
            in if length candidates > 0 then
                 (let k = \<lfloor>r2 * real (length candidates)\<rfloor>
                  in if 0 \<le> k \<and> nat k < length candidates then
                       (let badIndex = candidates ! nat k;
                            leaf = leafRefs s ! badIndex
                        in Inr (s\<lparr>leafRefs := (leafRefs s)[badIndex := leaf\<lparr>material := BadMaterial\<rparr>],
                                  badLeaves := insert badIndex (badLeaves s)\<rparr>))
                     else Inl TypeError)
               else Inr s)
         else Inr s)"

text \<open>Running the callback once per pair of draws; an exception would end the run.\<close>

fun badLeafTicks :: "(real \<times> real) list \<Rightarrow> state \<Rightarrow> error + state" where
  "badLeafTicks [] s = Inr s"
| "badLeafTicks ((r1, r2) # rs) s =
     (case badLeafTick r1 r2 s of Inl e \<Rightarrow> Inl e | Inr s' \<Rightarrow> badLeafTicks rs s')"

subsection \<open>Pruning a bad leaf on click\<close>

text \<open>The callback of the 600ms timeout. The leaf index comes from a mesh of
  \<open>leafRefs\<close>; were it out of range, the assignment to \<open>material\<close> would throw after the
  deletion and end the callback there.\<close>

definition pruneFire :: "nat \<Rightarrow> state \<Rightarrow> state" where
  "pruneFire i s =
     (let s1 = s\<lparr>badLeaves := badLeaves s - {i}\<rparr>
      in if i < length (leafRefs s1) then
           s1\<lparr>leafRefs := (leafRefs s1)[i := (leafRefs s1 ! i)\<lparr>material := HealthyMaterial\<rparr>],
              leafSprings := api_start (\<lambda>idx. if idx = i then Some (1, Duration 22000) else None)
                                       (leafSprings s1)\<rparr>
         else s1)"

text \<open>\<open>onClick\<close>, given the position in \<open>leafRefs\<close> of the first mesh the ray hits
  (\<open>None\<close> when \<open>intersects\<close> is empty; the ray is cast against \<open>leafRefs\<close> only).
  The listener is attached to the container and removed with it, so the container is
  there whenever the handler runs.\<close>

definition onClick :: "nat option \<Rightarrow> state \<Rightarrow> state" where
  "onClick pick s =
     (case pick of
        None \<Rightarrow> s
      | Some k \<Rightarrow>
          if k < length (leafRefs s) then
            (let i = index (leafRefs s ! k)
             in if i \<in> badLeaves s then
                  (let s1 = s\<lparr>leafSprings :=
                               api_start (\<lambda>idx. if idx = i then Some (0, Spring 180 18) else None)
                                         (leafSprings s)\<rparr>;
                       (h, s2) = setTimeout (PruneFire i) 600 s1
                   in s2)
                else s)
          else s)"

subsection \<open>Animation loop\<close>

text \<open>The library's frame: a spring that is at its goal is at rest; a spring in motion
  takes the value the library computed (\<open>vs ! i\<close>, when one is given).\<close>

definition springFrame :: "real list \<Rightarrow> state \<Rightarrow> state" where
  "springFrame vs s =
     s\<lparr>leafSprings :=
         map (\<lambda>(i, sp). if svalue sp \<noteq> goal sp \<and> i < length vs then sp\<lparr>svalue := vs ! i\<rparr> else sp)
             (enumerate 0 (leafSprings s))\<rparr>"

text \<open>\<open>animate\<close>: copy each spring's value to its mesh, then compute the growth level.\<close>

definition animate :: "state \<Rightarrow> state" where
  "animate s =
     (let sps = leafSprings s;
          refs = map (\<lambda>(i, leaf). if i < length sps then leaf\<lparr>scale := svalue (sps ! i)\<rparr> else leaf)
                     (enumerate 0 (leafRefs s));
          total = foldl (\<lambda>total i. if i < length sps \<and> i \<notin> badLeaves s
                                    then total + svalue (sps ! i) else total)
                        0 [0..<length (leafRefs s)];
          count = 7
      in s\<lparr>leafRefs := refs, growthLevelRef := total / count, growthLevel := total / count\<rparr>)"

subsection \<open>The event loop\<close>

fun run_action :: "action \<Rightarrow> state \<Rightarrow> state" where
  "run_action HoldFire s = holdFire s"
| "run_action WateringFire s = wateringFire s"
| "run_action (PruneFire i) s = pruneFire i s"

text \<open>Running the callbacks of a list of timeouts, in order.\<close>

fun fire :: "timer list \<Rightarrow> state \<Rightarrow> state" where
  "fire [] s = s"
| "fire ((h, d, a) # ts) s = fire ts (run_action a s)"

text \<open>One millisecond passes: the timeouts that are due are removed and their callbacks
  run, in the order they were set.\<close>

definition elapse :: "state \<Rightarrow> state" where
  "elapse s =
     (let s1 = s\<lparr>now := Suc (now s)\<rparr>;
          due = filter (\<lambda>(h, d, a). d \<le> now s1) (timers s1);
          s2 = s1\<lparr>timers := filter (\<lambda>(h, d, a). \<not> d \<le> now s1) (timers s1)\<rparr>
      in fire due s2)"

fun advance :: "nat \<Rightarrow> state \<Rightarrow> state" where
  "advance 0 s = s"
| "advance (Suc n) s = advance n (elapse s)"

datatype event =
    MoistureTick
  | BadLeafTick real real
  | PointerDown
  | PointerUp
  | PointerLeave
  | Click "nat option"
  | SpringFrame "real list"
  | AnimationFrame
  | Elapse

text \<open>An exception in the bad leaf callback ends that callback; the state is as it was.\<close>

fun step :: "state \<Rightarrow> event \<Rightarrow> state" where
  "step s MoistureTick = moistureTick s"
| "step s (BadLeafTick r1 r2) = (case badLeafTick r1 r2 s of Inl e \<Rightarrow> s | Inr s' \<Rightarrow> s')"
| "step s PointerDown = handlePlantAreaPointerDown s"
| "step s PointerUp = handlePlantAreaPointerUp s"
| "step s PointerLeave = handlePlantAreaPointerLeave s"
| "step s (Click pick) = onClick pick s"
| "step s (SpringFrame vs) = springFrame vs s"
| "step s AnimationFrame = animate s"
| "step s Elapse = elapse s"

definition run :: "event list \<Rightarrow> state \<Rightarrow> state" where
  "run evs s = foldl step s evs"


subsection \<open>Predicates used in the statements\<close>



text \<open>Each ref holds the value of its state cell.\<close>

definition mirrored :: "state \<Rightarrow> bool" where
  "mirrored s \<longleftrightarrow> waterLevelRef s = waterLevel s \<and> growthLevelRef s = growthLevel s"

text \<open>The pending timeouts of the watering gesture (hold and session).\<close>

definition pendingGesture :: "state \<Rightarrow> timer list" where
  "pendingGesture s = filter (\<lambda>(h, d, a). a = HoldFire \<or> a = WateringFire) (timers s)"

text \<open>The phases of the watering gesture, read off its pending timeouts: the hold
  timeout \<open>h\<close> pending (due at \<open>d\<close>), the session timeout pending, none pending.\<close>

definition holding_phase :: "nat \<Rightarrow> nat \<Rightarrow> state \<Rightarrow> bool" where
  "holding_phase h d s \<longleftrightarrow> \<not> watering s \<and> pendingGesture s = [(h, d, HoldFire)]"

definition watering_phase :: "nat \<Rightarrow> nat \<Rightarrow> state \<Rightarrow> bool" where
  "watering_phase h d s \<longleftrightarrow> watering s \<and> pendingGesture s = [(h, d, WateringFire)]"

definition idle_phase :: "state \<Rightarrow> bool" where
  "idle_phase s \<longleftrightarrow> \<not> watering s \<and> pendingGesture s = []"

text \<open>The number of prune sequences of leaf \<open>i\<close> whose 600ms delay is running.\<close>

definition pruneSequences :: "nat \<Rightarrow> state \<Rightarrow> nat" where
  "pruneSequences i s = length (filter (\<lambda>(h, d, a). a = PruneFire i) (timers s))"

text \<open>The state the component keeps its leaves in: seven meshes that carry their own
  position as index, and seven springs.\<close>

definition leaves_ok :: "state \<Rightarrow> bool" where
  "leaves_ok s \<longleftrightarrow> map index (leafRefs s) = [0..<7] \<and> length (leafSprings s) = 7"




section \<open>Properties\<close>




lemma start_water: "waterLevel start = 1" "\<not> watering start" "waterLevelRef start = 1"
  by (simp_all add: start_def mount_def init_def Let_def)

lemma length_api_start: "length (api_start f sps) = length sps"
  by (simp add: api_start_def)

lemma nth_api_start:
  "i < length sps \<Longrightarrow> api_start f sps ! i =
     (case f i of None \<Rightarrow> sps ! i | Some (g, c) \<Rightarrow> (sps ! i)\<lparr>goal := g, config := c\<rparr>)"
  by (simp add: api_start_def nth_enumerate_eq)


lemma fire_keeps:
  assumes "\<And>a s. Q s \<Longrightarrow> Q (run_action a s)" and "Q s"
  shows "Q (fire ts s)"
  using assms(2) by (induction ts s rule: fire.induct) (simp_all add: assms(1))

lemma elapse_keeps:
  assumes act: "\<And>a s. Q s \<Longrightarrow> Q (run_action a s)"
    and clock: "\<And>s n ts. Q s \<Longrightarrow> Q (s\<lparr>now := n, timers := ts\<rparr>)"
    and "Q s"
  shows "Q (elapse s)"
proof -
  have "Q (s\<lparr>now := Suc (now s), timers := filter (\<lambda>(h, d, a). \<not> d \<le> Suc (now s)) (timers s)\<rparr>)"
    using assms(3) by (rule clock)
  then show ?thesis
    unfolding elapse_def Let_def by (simp add: fire_keeps [of Q, OF act])
qed

lemma foldl_total:
  "foldl (\<lambda>total i. if P i then total + g i else total) a [0..<n]
     = a + (\<Sum>i \<in> {i. i < n \<and> P i}. (g i :: real))"
proof (induction n)
  case 0
  then show ?case by simp
next
  case (Suc n)
  have fin: "finite {i. i < n \<and> P i}" by simp
  have notin: "n \<notin> {i. i < n \<and> P i}" by simp
  show ?case
  proof (cases "P n")
    case True
    then have "{i. i < Suc n \<and> P i} = insert n {i. i < n \<and> P i}" by (auto simp: less_Suc_eq)
    with True Suc fin notin show ?thesis by simp
  next
    case False
    then have "{i. i < Suc n \<and> P i} = {i. i < n \<and> P i}" by (auto simp: less_Suc_eq)
    with False Suc show ?thesis by simp
  qed
qed

lemma growth_animate:
  "growthLevel (animate s) =
     (\<Sum>i \<in> {i. i < length (leafRefs s) \<and> i < length (leafSprings s) \<and> i \<notin> badLeaves s}.
        svalue (leafSprings s ! i)) / 7"
  "growthLevelRef (animate s) = growthLevel (animate s)"
  by (simp_all add: animate_def Let_def foldl_total)


lemma clearRef_timers:
  "clearRef r s =
     s\<lparr>timers := (case r of None \<Rightarrow> timers s
                     | Some h \<Rightarrow> filter (\<lambda>(i, d, a). i \<noteq> h) (timers s))\<rparr>"
  by (cases r) (simp_all add: clearRef_def clearTimeout_def)

lemmas handler_defs =
  handlePlantAreaPointerDown_def handlePlantAreaPointerUp_def handlePlantAreaPointerLeave_def
  holdFire_def wateringFire_def pruneFire_def onClick_def
  setTimeout_def clearRef_timers













lemma mirrored_action: "mirrored s \<Longrightarrow> mirrored (run_action a s)"
  by (cases a) (simp_all add: mirrored_def handler_defs Let_def)

lemma mirrored_step: "mirrored s \<Longrightarrow> mirrored (step s e)"
proof (cases e)
  case (BadLeafTick r1 r2)
  assume "mirrored s"
  then show ?thesis unfolding BadLeafTick
    by (auto simp: badLeafTick_def Let_def mirrored_def split: sum.splits if_splits)
next
  case Elapse
  assume "mirrored s"
  then show ?thesis unfolding Elapse step.simps
    by (rule elapse_keeps [of mirrored, rotated 2]) (simp_all add: mirrored_action, simp add: mirrored_def)
qed (simp_all add: mirrored_def handler_defs Let_def moistureTick_def chargeTick_def decayTick_def
       springFrame_def animate_def split: option.splits)

lemma mirrored_run: "mirrored s \<Longrightarrow> mirrored (run evs s)"
  unfolding run_def by (induction evs arbitrary: s) (simp_all add: mirrored_step)

lemma mirrored_start: "mirrored start"
  by (simp add: mirrored_def start_def mount_def init_def Let_def)

lemma advance_add: "advance (m + n) s = advance n (advance m s)"
  by (induction m arbitrary: s) simp_all

lemma now_action: "now (run_action a s) = now s"
  by (cases a) (simp_all add: handler_defs Let_def)

lemma now_fire: "now (fire ts s) = now s"
  by (induction ts s rule: fire.induct) (simp_all add: now_action)

lemma now_elapse: "now (elapse s) = Suc (now s)"
  by (simp add: elapse_def Let_def now_fire)

lemma now_advance: "now (advance n s) = now s + n"
  by (induction n arbitrary: s) (simp_all add: now_elapse)

lemma pruneFire_gesture:
  "watering (pruneFire i s) = watering s" "timers (pruneFire i s) = timers s"
  "nextTimer (pruneFire i s) = nextTimer s"
  by (simp_all add: pruneFire_def Let_def)

lemma fire_no_gesture:
  "filter (\<lambda>(h, d, a). a = HoldFire \<or> a = WateringFire) ts = [] \<Longrightarrow>
     watering (fire ts s) = watering s \<and> timers (fire ts s) = timers s \<and>
     nextTimer (fire ts s) = nextTimer s"
proof (induction ts s rule: fire.induct)
  case (1 s)
  then show ?case by simp
next
  case (2 h d a ts s)
  then obtain i where a: "a = PruneFire i" by (cases a) (simp_all split: if_splits)
  with 2 show ?case by (simp add: pruneFire_gesture)
qed

lemma fire_hold:
  "filter (\<lambda>(h, d, a). a = HoldFire \<or> a = WateringFire) ts = [(h0, d0, HoldFire)] \<Longrightarrow>
     watering (fire ts s) \<and>
     timers (fire ts s) = timers s @ [(nextTimer s, now s + 1200, WateringFire)]"
proof (induction ts s rule: fire.induct)
  case (1 s)
  then show ?case by simp
next
  case (2 h d a ts s)
  show ?case
  proof (cases a)
    case HoldFire
    with 2(2) have "filter (\<lambda>(h, d, a). a = HoldFire \<or> a = WateringFire) ts = []" by simp
    from fire_no_gesture [OF this, of "holdFire s"] show ?thesis
      unfolding HoldFire by (simp add: holdFire_def setTimeout_def Let_def)
  next
    case WateringFire
    with 2(2) show ?thesis by simp
  next
    case (PruneFire i)
    with 2 show ?thesis by (simp add: pruneFire_gesture pruneFire_def Let_def)
  qed
qed

lemma fire_session:
  "filter (\<lambda>(h, d, a). a = HoldFire \<or> a = WateringFire) ts = [(h0, d0, WateringFire)] \<Longrightarrow>
     \<not> watering (fire ts s) \<and> timers (fire ts s) = timers s"
proof (induction ts s rule: fire.induct)
  case (1 s)
  then show ?case by simp
next
  case (2 h d a ts s)
  show ?case
  proof (cases a)
    case HoldFire
    with 2(2) show ?thesis by simp
  next
    case WateringFire
    with 2(2) have "filter (\<lambda>(h, d, a). a = HoldFire \<or> a = WateringFire) ts = []" by simp
    from fire_no_gesture [OF this, of "wateringFire s"] show ?thesis
      unfolding WateringFire by (simp add: wateringFire_def)
  next
    case (PruneFire i)
    with 2 show ?thesis by (simp add: pruneFire_gesture pruneFire_def Let_def)
  qed
qed

lemma filter_swap: "filter P (filter Q xs) = filter Q (filter P xs)"
  by (induction xs) simp_all

lemma elapse_parts:
  "elapse s = fire (filter (\<lambda>(h, d, a). d \<le> Suc (now s)) (timers s))
                   (s\<lparr>now := Suc (now s),
                      timers := filter (\<lambda>(h, d, a). \<not> d \<le> Suc (now s)) (timers s)\<rparr>)"
  by (simp add: elapse_def Let_def)

lemma due_gesture:
  "filter (\<lambda>(h, d, a). a = HoldFire \<or> a = WateringFire)
          (filter (\<lambda>(h, d, a). d \<le> n) (timers s))
     = filter (\<lambda>(h, d, a). d \<le> n) (pendingGesture s)"
  unfolding pendingGesture_def by (rule filter_swap)

lemma rest_gesture:
  "pendingGesture (s\<lparr>now := m, timers := filter (\<lambda>(h, d, a). \<not> d \<le> n) (timers s)\<rparr>)
     = filter (\<lambda>(h, d, a). \<not> d \<le> n) (pendingGesture s)"
proof -
  have "pendingGesture (s\<lparr>now := m, timers := ts\<rparr>)
          = filter (\<lambda>(h, d, a). a = HoldFire \<or> a = WateringFire) ts" for ts
    by (simp add: pendingGesture_def)
  then show ?thesis unfolding pendingGesture_def by (simp only: filter_swap)
qed

lemma elapse_idle: "idle_phase s \<Longrightarrow> idle_phase (elapse s)"
proof -
  assume a: "idle_phase s"
  let ?due = "filter (\<lambda>(h, d, a). d \<le> Suc (now s)) (timers s)"
  let ?s2 = "s\<lparr>now := Suc (now s), timers := filter (\<lambda>(h, d, a). \<not> d \<le> Suc (now s)) (timers s)\<rparr>"
  from a have g: "filter (\<lambda>(h, d, a). a = HoldFire \<or> a = WateringFire) ?due = []"
    unfolding due_gesture by (simp add: idle_phase_def)
  from a have p: "pendingGesture ?s2 = []" by (simp add: rest_gesture idle_phase_def)
  from fire_no_gesture [OF g, of ?s2] a p show ?thesis
    unfolding elapse_parts idle_phase_def pendingGesture_def by simp
qed

lemma idle_wait: "idle_phase s \<Longrightarrow> idle_phase (advance n s)"
  by (induction n arbitrary: s) (simp_all add: elapse_idle)

lemma elapse_holding:
  assumes "holding_phase h d s" and "Suc (now s) < d"
  shows "holding_phase h d (elapse s)"
proof -
  let ?due = "filter (\<lambda>(h, d, a). d \<le> Suc (now s)) (timers s)"
  let ?s2 = "s\<lparr>now := Suc (now s), timers := filter (\<lambda>(h, d, a). \<not> d \<le> Suc (now s)) (timers s)\<rparr>"
  from assms have h: "pendingGesture s = [(h, d, HoldFire)]" and w: "\<not> watering s"
    by (auto simp: holding_phase_def)
  from h assms(2) have g: "filter (\<lambda>(h, d, a). a = HoldFire \<or> a = WateringFire) ?due = []"
    unfolding due_gesture by simp
  from h assms(2) have p: "pendingGesture ?s2 = [(h, d, HoldFire)]" by (simp add: rest_gesture)
  from fire_no_gesture [OF g, of ?s2] w p show ?thesis
    unfolding elapse_parts holding_phase_def pendingGesture_def by simp
qed

lemma holding_wait: "holding_phase h d s \<Longrightarrow> now s + n < d \<Longrightarrow> holding_phase h d (advance n s)"
proof (induction n arbitrary: s)
  case 0
  then show ?case by simp
next
  case (Suc n)
  from Suc.prems have "holding_phase h d (elapse s)" by (intro elapse_holding) simp_all
  moreover from Suc.prems have "now (elapse s) + n < d" by (simp add: now_elapse)
  ultimately show ?case by (simp add: Suc.IH)
qed

lemma holding_fire:
  assumes "holding_phase h d s" and "Suc (now s) = d"
  shows "watering_phase (nextTimer s) (d + 1200) (elapse s)"
proof -
  let ?due = "filter (\<lambda>(h, d, a). d \<le> Suc (now s)) (timers s)"
  let ?s2 = "s\<lparr>now := Suc (now s), timers := filter (\<lambda>(h, d, a). \<not> d \<le> Suc (now s)) (timers s)\<rparr>"
  from assms have h: "pendingGesture s = [(h, d, HoldFire)]"
    by (auto simp: holding_phase_def)
  from h assms(2) have g: "filter (\<lambda>(h, d, a). a = HoldFire \<or> a = WateringFire) ?due = [(h, d, HoldFire)]"
    unfolding due_gesture by simp
  from h assms(2) have p: "pendingGesture ?s2 = []" by (simp add: rest_gesture)
  from fire_hold [OF g, of ?s2] p assms(2) show ?thesis
    unfolding elapse_parts watering_phase_def pendingGesture_def by simp
qed

lemma elapse_watering:
  assumes "watering_phase h d s" and "Suc (now s) < d"
  shows "watering_phase h d (elapse s)"
proof -
  let ?due = "filter (\<lambda>(h, d, a). d \<le> Suc (now s)) (timers s)"
  let ?s2 = "s\<lparr>now := Suc (now s), timers := filter (\<lambda>(h, d, a). \<not> d \<le> Suc (now s)) (timers s)\<rparr>"
  from assms have h: "pendingGesture s = [(h, d, WateringFire)]" and w: "watering s"
    by (auto simp: watering_phase_def)
  from h assms(2) have g: "filter (\<lambda>(h, d, a). a = HoldFire \<or> a = WateringFire) ?due = []"
    unfolding due_gesture by simp
  from h assms(2) have p: "pendingGesture ?s2 = [(h, d, WateringFire)]" by (simp add: rest_gesture)
  from fire_no_gesture [OF g, of ?s2] w p show ?thesis
    unfolding elapse_parts watering_phase_def pendingGesture_def by simp
qed

lemma watering_wait: "watering_phase h d s \<Longrightarrow> now s + n < d \<Longrightarrow> watering_phase h d (advance n s)"
proof (induction n arbitrary: s)
  case 0
  then show ?case by simp
next
  case (Suc n)
  from Suc.prems have "watering_phase h d (elapse s)" by (intro elapse_watering) simp_all
  moreover from Suc.prems have "now (elapse s) + n < d" by (simp add: now_elapse)
  ultimately show ?case by (simp add: Suc.IH)
qed

lemma watering_fire:
  assumes "watering_phase h d s" and "Suc (now s) = d"
  shows "idle_phase (elapse s)"
proof -
  let ?due = "filter (\<lambda>(h, d, a). d \<le> Suc (now s)) (timers s)"
  let ?s2 = "s\<lparr>now := Suc (now s), timers := filter (\<lambda>(h, d, a). \<not> d \<le> Suc (now s)) (timers s)\<rparr>"
  from assms have h: "pendingGesture s = [(h, d, WateringFire)]"
    by (auto simp: watering_phase_def)
  from h assms(2) have g: "filter (\<lambda>(h, d, a). a = HoldFire \<or> a = WateringFire) ?due = [(h, d, WateringFire)]"
    unfolding due_gesture by simp
  from h assms(2) have p: "pendingGesture ?s2 = []" by (simp add: rest_gesture)
  from fire_session [OF g, of ?s2] p show ?thesis
    unfolding elapse_parts idle_phase_def pendingGesture_def by simp
qed

lemma pendingGesture_clearRef:
  "pendingGesture (clearRef r s) =
     (case r of None \<Rightarrow> pendingGesture s
      | Some h \<Rightarrow> filter (\<lambda>(i, d, a). i \<noteq> h) (pendingGesture s))"
proof (cases r)
  case None
  then show ?thesis by (simp add: clearRef_timers pendingGesture_def)
next
  case (Some h)
  have "pendingGesture (clearRef (Some h) s)
          = filter (\<lambda>(h, d, a). a = HoldFire \<or> a = WateringFire)
                   (filter (\<lambda>(i, d, a). i \<noteq> h) (timers s))"
    by (simp add: clearRef_timers pendingGesture_def)
  also have "\<dots> = filter (\<lambda>(i, d, a). i \<noteq> h) (pendingGesture s)"
    unfolding pendingGesture_def by (rule filter_swap)
  finally show ?thesis using Some by simp
qed

lemma pointerDown_phase:
  assumes "idle_phase s"
  shows "holding_phase (nextTimer s) (now s + 1000) (handlePlantAreaPointerDown s)"
    and "now (handlePlantAreaPointerDown s) = now s"
    and "holdTimeout (handlePlantAreaPointerDown s) = Some (nextTimer s)"
proof -
  from assms have p: "pendingGesture s = []" and w: "\<not> watering s" by (simp_all add: idle_phase_def)
  have "pendingGesture (clearRef (wateringTimeout s) s) = []"
    by (simp add: pendingGesture_clearRef p split: option.splits)
  then have "pendingGesture (handlePlantAreaPointerDown s) = [(nextTimer s, now s + 1000, HoldFire)]"
    by (simp add: handlePlantAreaPointerDown_def setTimeout_def Let_def pendingGesture_def
          clearRef_timers)
  moreover have "watering (handlePlantAreaPointerDown s) = watering s"
    by (simp add: handlePlantAreaPointerDown_def setTimeout_def Let_def clearRef_timers)
  ultimately show "holding_phase (nextTimer s) (now s + 1000) (handlePlantAreaPointerDown s)"
    using w by (simp add: holding_phase_def)
  show "now (handlePlantAreaPointerDown s) = now s"
    "holdTimeout (handlePlantAreaPointerDown s) = Some (nextTimer s)"
    by (simp_all add: handlePlantAreaPointerDown_def setTimeout_def Let_def clearRef_timers)
qed

lemma pointerUp_idle:
  assumes "holding_phase h d s" and "holdTimeout s = Some h"
  shows "idle_phase (handlePlantAreaPointerUp s)"
proof -
  let ?s1 = "s\<lparr>holding := False\<rparr>"
  let ?s2 = "clearRef (holdTimeout ?s1) ?s1"
  let ?s3 = "clearRef (wateringTimeout ?s2) ?s2"
  from assms have w: "\<not> watering s" and g: "pendingGesture s = [(h, d, HoldFire)]"
    by (simp_all add: holding_phase_def)
  have "pendingGesture ?s1 = pendingGesture s" by (simp add: pendingGesture_def)
  then have "pendingGesture ?s2 = []" using assms(2) g by (simp add: pendingGesture_clearRef)
  then have p: "pendingGesture ?s3 = []" by (simp add: pendingGesture_clearRef split: option.splits)
  have "watering ?s3 = watering s" by (simp add: clearRef_timers)
  with w p show ?thesis
    by (simp add: idle_phase_def handlePlantAreaPointerUp_def Let_def)
qed

lemma holdTimeout_advance: "holdTimeout (advance n s) = holdTimeout s"
proof (induction n arbitrary: s)
  case 0
  then show ?case by simp
next
  case (Suc n)
  have a: "holdTimeout (run_action a s) = r" if "holdTimeout s = r" for a s r
    using that by (cases a) (simp_all add: handler_defs Let_def)
  have "holdTimeout (elapse s) = holdTimeout s"
    by (rule elapse_keeps [of "\<lambda>t. holdTimeout t = holdTimeout s"]) (simp_all add: a)
  then show ?case by (simp add: Suc.IH)
qed

lemma holding_timeline:
  assumes "holding_phase h d s" and "now s < d"
  shows "watering (advance t s) \<longleftrightarrow> d \<le> now s + t \<and> now s + t < d + 1200"
proof -
  define k where "k = d - Suc (now s)"
  have d: "d = Suc (now s + k)" using assms(2) by (simp add: k_def)
  have before: "holding_phase h d (advance n s)" if "n \<le> k" for n
    using holding_wait [OF assms(1), of n] that d by simp
  have nk: "now (advance k s) = now s + k" by (simp add: now_advance)
  have "advance (Suc k) s = elapse (advance k s)"
    using advance_add [of k 1 s] by simp
  with holding_fire [OF before [of k]] nk d
  obtain h' where p2: "watering_phase h' (d + 1200) (advance (Suc k) s)" by auto
  have n2: "now (advance (Suc k) s) = d" by (simp add: now_advance now_elapse d)
  have during: "watering_phase h' (d + 1200) (advance (Suc k + n) s)" if "n < 1200" for n
    using watering_wait [OF p2, of n] that n2 by (simp add: advance_add)
  have n3: "now (advance (Suc k + 1199) s) = d + 1199" by (simp add: now_advance now_elapse d)
  have "advance (Suc k + 1200) s = elapse (advance (Suc k + 1199) s)"
    using advance_add [of "Suc k + 1199" 1 s] by simp
  with watering_fire [OF during [of 1199]] n3
  have p3: "idle_phase (advance (Suc k + 1200) s)" by simp
  have after: "idle_phase (advance (Suc k + 1200 + n) s)" for n
    using idle_wait [OF p3, of n] by (simp add: advance_add)
  consider "t \<le> k" | "Suc k \<le> t" "t < Suc k + 1200" | "Suc k + 1200 \<le> t" by linarith
  then show ?thesis
  proof cases
    case 1
    with before [of t] d show ?thesis by (simp add: holding_phase_def)
  next
    case 2
    then have "t = Suc k + (t - Suc k)" "t - Suc k < 1200" by simp_all
    with during [of "t - Suc k"] 2 d show ?thesis by (simp add: watering_phase_def)
  next
    case 3
    then have "t = Suc k + 1200 + (t - (Suc k + 1200))" by simp
    with after [of "t - (Suc k + 1200)"] 3 d show ?thesis by (simp add: idle_phase_def)
  qed
qed

lemma hold_timeline:
  assumes "idle_phase s"
  shows "watering (advance t (handlePlantAreaPointerDown s)) \<longleftrightarrow> 1000 \<le> t \<and> t < 2200"
  using holding_timeline [OF pointerDown_phase(1) [OF assms], of t] pointerDown_phase(2) [OF assms]
  by simp

lemma early_release:
  assumes "idle_phase s" and "d < 1000"
  shows "idle_phase (handlePlantAreaPointerUp (advance d (handlePlantAreaPointerDown s)))"
proof -
  let ?s1 = "handlePlantAreaPointerDown s"
  note p = pointerDown_phase [OF assms(1)]
  have "holding_phase (nextTimer s) (now s + 1000) (advance d ?s1)"
    using holding_wait [OF p(1), of d] assms(2) p(2) by simp
  moreover have "holdTimeout (advance d ?s1) = Some (nextTimer s)"
    by (simp add: holdTimeout_advance p(3))
  ultimately show ?thesis by (rule pointerUp_idle)
qed

lemma elapse_quiet:
  assumes "\<forall>(h, d, a) \<in> set (timers s). now s + 1 < d"
  shows "elapse s = s\<lparr>now := Suc (now s)\<rparr>"
proof -
  have "filter (\<lambda>(h, d, a). d \<le> Suc (now s)) (timers s) = []"
    using assms by (auto simp: filter_empty_conv)
  moreover have "filter (\<lambda>(h, d, a). \<not> d \<le> Suc (now s)) (timers s) = timers s"
    using assms by (auto simp: filter_id_conv)
  ultimately show ?thesis by (simp add: elapse_def Let_def)
qed

lemma advance_quiet:
  "\<forall>(h, d, a) \<in> set (timers s). now s + n < d \<Longrightarrow> advance n s = s\<lparr>now := now s + n\<rparr>"
proof (induction n arbitrary: s)
  case 0
  then show ?case by simp
next
  case (Suc n)
  from Suc.prems have q: "\<forall>(h, d, a) \<in> set (timers s). now s + 1 < d" by auto
  have e: "elapse s = s\<lparr>now := Suc (now s)\<rparr>" using q by (rule elapse_quiet)
  have "advance n (elapse s) = (elapse s)\<lparr>now := now (elapse s) + n\<rparr>"
    using Suc.prems unfolding e by (intro Suc.IH) auto
  then show ?case by (simp add: e)
qed

lemma run_append: "run (xs @ ys) s = run ys (run xs s)"
  by (simp add: run_def)

lemma run_elapse: "run (replicate n Elapse) s = advance n s"
  unfolding run_def by (induction n arbitrary: s) simp_all

lemma leaves_ok_nth:
  assumes "leaves_ok s" and "i < 7"
  shows "i < length (leafRefs s)" and "index (leafRefs s ! i) = i" and "i < length (leafSprings s)"
proof -
  from assms(1) have m: "map index (leafRefs s) = [0..<7]" and l: "length (leafSprings s) = 7"
    by (simp_all add: leaves_ok_def)
  from m have "length (map index (leafRefs s)) = 7" by simp
  then show len: "i < length (leafRefs s)" using assms(2) by simp
  have "map index (leafRefs s) ! i = [0..<7] ! i" by (simp only: m)
  then show "index (leafRefs s ! i) = i" using len assms(2) by simp
  show "i < length (leafSprings s)" using l assms(2) by simp
qed

lemma leaves_ok_start: "leaves_ok start"
  by (simp add: leaves_ok_def start_def mount_def init_def useSprings_def leafCount_def
        createLeaf_def Let_def length_api_start upt_rec)

lemma onClick_bad:
  assumes "leaves_ok s" and "i < 7" and "i \<in> badLeaves s"
  shows "onClick (Some i) s =
           s\<lparr>leafSprings := api_start (\<lambda>idx. if idx = i then Some (0, Spring 180 18) else None)
                                      (leafSprings s),
             timers := timers s @ [(nextTimer s, now s + 600, PruneFire i)],
             nextTimer := Suc (nextTimer s)\<rparr>"
  using leaves_ok_nth [OF assms(1,2)] assms(3)
  by (simp add: onClick_def setTimeout_def Let_def)


















lemma badLeafTick_all_bad:
  assumes "{0..<length (leafRefs s)} \<subseteq> badLeaves s"
  shows "badLeafTick r1 r2 s = Inr s"
proof -
  have "filter (\<lambda>i. i \<notin> badLeaves s) [0..<length (leafRefs s)] = []"
    using assms by (auto simp: filter_empty_conv)
  then show ?thesis by (simp add: badLeafTick_def Let_def)
qed

lemma badLeafTicks_all_bad:
  "{0..<length (leafRefs s)} \<subseteq> badLeaves s \<Longrightarrow> badLeafTicks rs s = Inr s"
  by (induction rs) (auto simp: badLeafTick_all_bad)

lemma pruneSequences_onClick:
  assumes "k < length (leafRefs s)"
  shows "pruneSequences i (onClick (Some k) s) =
           (if index (leafRefs s ! k) = i \<and> i \<in> badLeaves s
            then Suc (pruneSequences i s) else pruneSequences i s)"
    and "badLeaves (onClick (Some k) s) = badLeaves s"
  using assms by (auto simp: pruneSequences_def onClick_def setTimeout_def Let_def)

lemma start_springs:
  "leafSprings start = replicate 7 \<lparr>svalue = 1, goal = 1, config = Spring 180 18\<rparr>"
  by (simp add: start_def mount_def init_def useSprings_def api_start_def Let_def
        enumerate_eq_zip upt_rec numeral_eq_Suc)

text \<open>
  C1. A moisture tick sets the water level to \<open>min 1 (w + 0.02)\<close> when \<open>watering\<close> holds
  and to \<open>max 0 (w - 0.002)\<close> otherwise, where \<open>w\<close> is the level before the tick; the
  ref mirrors the new level and the tick does not change \<open>watering\<close>.
\<close>

theorem moisture_tick_rule:
  "waterLevel (moistureTick s) =
     (if watering s then min 1 (waterLevel s + 0.02) else max 0 (waterLevel s - 0.002)) \<and>
   waterLevelRef (moistureTick s) = waterLevel (moistureTick s) \<and>
   watering (moistureTick s) = watering s"
  by (simp add: moistureTick_def chargeTick_def decayTick_def Let_def)

theorem moisture_tick_rule_witness:
  "waterLevel (moistureTick (start\<lparr>watering := True, waterLevel := 0.99\<rparr>)) = 1 \<and>
   waterLevel (moistureTick (start\<lparr>watering := True, waterLevel := 0.5\<rparr>)) = 0.52 \<and>
   waterLevel (moistureTick (start\<lparr>waterLevel := 0.001\<rparr>)) = 0 \<and>
   waterLevel (moistureTick start) = 0.998"
  using moisture_tick_rule [of "start\<lparr>watering := True, waterLevel := 0.99\<rparr>"]
    moisture_tick_rule [of "start\<lparr>watering := True, waterLevel := 0.5\<rparr>"]
    moisture_tick_rule [of "start\<lparr>waterLevel := 0.001\<rparr>"]
    moisture_tick_rule [of start]
  by (simp add: start_water)

text \<open>
  C3. The chance of the bad leaf tick is \<open>0.01 + (1 - w) * 0.24\<close> for the water level
  \<open>w\<close> (the ref the function reads equals the water level in every state the events
  reach); it is \<open>0.25\<close> at level 0 and \<open>0.01\<close> at level 1, it is the affine function
  \<open>0.25 - 0.24 * w\<close>, and it is strictly decreasing in the level.
\<close>

theorem bad_leaf_chance:
  "getBadLeafChance (run evs start) = 0.01 + (1 - waterLevel (run evs start)) * 0.24 \<and>
   getBadLeafChance s = 0.01 + (1 - waterLevelRef s) * 0.24 \<and>
   getBadLeafChance s = 0.25 - 0.24 * waterLevelRef s \<and>
   getBadLeafChance (s\<lparr>waterLevelRef := 0\<rparr>) = 0.25 \<and>
   getBadLeafChance (s\<lparr>waterLevelRef := 1\<rparr>) = 0.01 \<and>
   (waterLevelRef s < waterLevelRef s' \<longrightarrow> getBadLeafChance s' < getBadLeafChance s)"
proof -
  have "waterLevelRef (run evs start) = waterLevel (run evs start)"
    using mirrored_run [OF mirrored_start, of evs] by (simp add: mirrored_def)
  then have "getBadLeafChance (run evs start) = 0.01 + (1 - waterLevel (run evs start)) * 0.24"
    by (simp add: getBadLeafChance_def)
  moreover have "getBadLeafChance s = 0.25 - 0.24 * waterLevelRef s"
    unfolding getBadLeafChance_def by (simp add: field_simps)
  moreover have "getBadLeafChance s' < getBadLeafChance s" if "waterLevelRef s < waterLevelRef s'"
    using that unfolding getBadLeafChance_def by simp
  ultimately show ?thesis by (simp add: getBadLeafChance_def)
qed

theorem bad_leaf_chance_witness:
  "waterLevelRef (start\<lparr>waterLevelRef := 0.25\<rparr>) < waterLevelRef (start\<lparr>waterLevelRef := 0.75\<rparr>) \<and>
   getBadLeafChance (start\<lparr>waterLevelRef := 0.75\<rparr>) < getBadLeafChance (start\<lparr>waterLevelRef := 0.25\<rparr>) \<and>
   getBadLeafChance (start\<lparr>waterLevelRef := 0.25\<rparr>) = 0.19 \<and>
   getBadLeafChance (start\<lparr>waterLevelRef := 0.75\<rparr>) = 0.07"
  using bad_leaf_chance [of "[]" "start\<lparr>waterLevelRef := 0.25\<rparr>" "start\<lparr>waterLevelRef := 0.75\<rparr>"]
    bad_leaf_chance [of "[]" "start\<lparr>waterLevelRef := 0.75\<rparr>" start]
  by simp

text \<open>
  C4. With the seven leaves and seven springs, the growth level an animation frame computes
  is the sum of the spring values of the leaves that are not in \<open>badLeaves\<close>, divided by 7,
  whatever the values and whichever leaves are bad.
\<close>

theorem growth_level_mean:
  assumes "length (leafRefs s) = 7" and "length (leafSprings s) = 7"
  shows "growthLevel (animate s) =
           (\<Sum>i \<in> {0..<7} - badLeaves s. svalue (leafSprings s ! i)) / 7 \<and>
         growthLevelRef (animate s) = growthLevel (animate s)"
proof -
  have "{i. i < length (leafRefs s) \<and> i < length (leafSprings s) \<and> i \<notin> badLeaves s}
          = {0..<7} - badLeaves s"
    using assms by auto
  then show ?thesis by (simp add: growth_animate)
qed

lemma start_lengths: "length (leafRefs start) = 7" "length (leafSprings start) = 7"
  by (simp_all add: start_def mount_def init_def useSprings_def leafCount_def Let_def length_api_start)

theorem growth_level_mean_witness:
  "length (leafRefs (start\<lparr>badLeaves := {2, 5}\<rparr>)) = 7 \<and>
   length (leafSprings (start\<lparr>badLeaves := {2, 5}\<rparr>)) = 7 \<and>
   growthLevel (animate (start\<lparr>badLeaves := {2, 5}\<rparr>)) = 5 / 7"
proof -
  have v: "svalue (leafSprings start ! i) = 1" if "i < 7" for i
    using that
    by (simp add: start_def mount_def init_def useSprings_def Let_def nth_api_start)
  have "{0..<7} - {2, 5::nat} = {0, 1, 3, 4, 6}" by auto
  then have "(\<Sum>i \<in> {0..<7} - {2, 5::nat}. svalue (leafSprings start ! i)) = 5"
    by (simp add: v)
  then show ?thesis
    using growth_level_mean [of "start\<lparr>badLeaves := {2, 5}\<rparr>"] by (simp add: start_lengths)
qed

lemma start_idle: "timers start = []" "\<not> watering start" "pendingGesture start = []"
  by (simp_all add: start_def mount_def init_def pendingGesture_def Let_def)




lemma start_fields:
  "leafRefs start = map createLeaf [0, 1, 2, 3, 4, 5, 6]"
  "badLeaves start = {}"
  "waterLevelRef start = 1"
  "now start = 0"
  "nextTimer start = 1"
  "timers start = []"
  by (simp_all add: start_def mount_def init_def leafCount_def Let_def upt_rec createLeaf_def)

lemma first_leaf_goes_bad:
  "badLeafTick 0 0 start =
     Inr (start\<lparr>leafRefs := (leafRefs start)[0 := (createLeaf 0)\<lparr>material := BadMaterial\<rparr>],
                badLeaves := {0}\<rparr>)"
  by (simp add: badLeafTick_def getBadLeafChance_def Let_def start_fields upt_rec)

lemma bad0_state:
  "run [BadLeafTick 0 0] start =
     start\<lparr>leafRefs := (leafRefs start)[0 := (createLeaf 0)\<lparr>material := BadMaterial\<rparr>],
           badLeaves := {0}\<rparr>"
  by (simp add: run_def first_leaf_goes_bad)

lemma bad0_facts:
  "leaves_ok (run [BadLeafTick 0 0] start)"
  "0 \<in> badLeaves (run [BadLeafTick 0 0] start)"
  "timers (run [BadLeafTick 0 0] start) = []"
  "now (run [BadLeafTick 0 0] start) = 0"
  "nextTimer (run [BadLeafTick 0 0] start) = 1"
  "material (leafRefs (run [BadLeafTick 0 0] start) ! 0) = BadMaterial"
  unfolding bad0_state
  by (simp_all add: leaves_ok_def start_fields start_lengths createLeaf_def upt_rec)




text \<open>
  C6 (evaluation at mount). The seven springs are created with value 1, not 0, so the
  start towards goal 1 at mount finds every spring at rest at its goal: library frames
  leave the springs as they are, and the first animation frame sets every mesh scale from 0
  to 1 in one step.
\<close>

theorem initial_springs_at_rest:
  "leafSprings init = replicate 7 \<lparr>svalue = 1, goal = 1, config = Spring 180 18\<rparr> \<and>
   leafSprings start = replicate 7 \<lparr>svalue = 1, goal = 1, config = Spring 180 18\<rparr> \<and>
   springFrame vs start = start \<and>
   map scale (leafRefs start) = replicate 7 0 \<and>
   map scale (leafRefs (animate start)) = replicate 7 1"
proof -
  have "leafSprings init = replicate 7 \<lparr>svalue = 1, goal = 1, config = Spring 180 18\<rparr>"
    by (simp add: init_def useSprings_def upt_rec numeral_eq_Suc)
  moreover have "springFrame vs start = start"
  proof -
    have "map (\<lambda>(i, sp). if svalue sp \<noteq> goal sp \<and> i < length vs then sp\<lparr>svalue := vs ! i\<rparr> else sp)
            (enumerate 0 (leafSprings start)) = leafSprings start"
      by (rule nth_equalityI) (simp_all add: nth_enumerate_eq start_springs)
    then show ?thesis by (simp add: springFrame_def)
  qed
  moreover have "map scale (leafRefs start) = replicate 7 0"
    by (simp add: start_fields createLeaf_def numeral_eq_Suc)
  moreover have "map scale (leafRefs (animate start)) = replicate 7 1"
    by (simp add: animate_def Let_def start_fields start_springs createLeaf_def enumerate_eq_zip
          upt_rec numeral_eq_Suc)
  ultimately show ?thesis by (simp add: start_springs)
qed

text \<open>
  C7. When all seven leaves are bad, any number of bad leaf ticks, with any draws, ends
  without an exception and leaves the state, and so the set of seven bad leaves, unchanged.
\<close>

theorem all_bad_is_absorbing:
  assumes "length (leafRefs s) = 7" and "badLeaves s = {0..<7}"
  shows "badLeafTicks rs s = Inr s \<and> step s (BadLeafTick r1 r2) = s \<and> card (badLeaves s) = 7"
proof -
  have sub: "{0..<length (leafRefs s)} \<subseteq> badLeaves s" using assms by simp
  then have "badLeafTicks rs s = Inr s" by (rule badLeafTicks_all_bad)
  moreover have "step s (BadLeafTick r1 r2) = s" by (simp add: badLeafTick_all_bad [OF sub])
  ultimately show ?thesis using assms(2) by simp
qed

theorem all_bad_is_absorbing_witness:
  "length (leafRefs (start\<lparr>badLeaves := {0..<7}\<rparr>)) = 7 \<and>
   badLeaves (start\<lparr>badLeaves := {0..<7}\<rparr>) = {0..<7} \<and>
   badLeafTicks [(0, 0), (0.2, 0.99), (0, 7), (0, -1)] (start\<lparr>badLeaves := {0..<7}\<rparr>)
     = Inr (start\<lparr>badLeaves := {0..<7}\<rparr>)"
  using all_bad_is_absorbing [of "start\<lparr>badLeaves := {0..<7}\<rparr>" "[(0, 0), (0.2, 0.99), (0, 7), (0, -1)]"]
  by (simp add: start_lengths)

text \<open>
  C8 (amended). A click on leaf \<open>i\<close> starts one more prune sequence of leaf \<open>i\<close> when \<open>i\<close> is
  in \<open>badLeaves\<close> and none otherwise, and never one of another leaf. The click leaves \<open>i\<close>
  in \<open>badLeaves\<close>, so a second click during the 600ms delay starts a second sequence.
\<close>

theorem click_starts_sequence_iff_bad:
  assumes "leaves_ok s" and "i < 7"
  shows "pruneSequences i (onClick (Some i) s) =
           (if i \<in> badLeaves s then Suc (pruneSequences i s) else pruneSequences i s) \<and>
         badLeaves (onClick (Some i) s) = badLeaves s \<and>
         (\<forall>j. j \<noteq> i \<longrightarrow> pruneSequences j (onClick (Some i) s) = pruneSequences j s) \<and>
         pruneSequences i (onClick (Some i) (onClick (Some i) s)) =
           (if i \<in> badLeaves s then pruneSequences i s + 2 else pruneSequences i s)"
proof -
  note n = leaves_ok_nth [OF assms]
  have l: "length (leafRefs (onClick (Some i) s)) = length (leafRefs s)"
    "leafRefs (onClick (Some i) s) = leafRefs s"
    by (simp_all add: onClick_def setTimeout_def Let_def)
  note a = pruneSequences_onClick [OF n(1)]
  note b = pruneSequences_onClick [of i "onClick (Some i) s"]
  show ?thesis using n by (simp add: a b l)
qed

theorem click_starts_sequence_iff_bad_witness:
  "leaves_ok (run [BadLeafTick 0 0] start) \<and> (0::nat) < 7 \<and> (1::nat) \<noteq> 0 \<and>
   pruneSequences 0 (onClick (Some 0) (run [BadLeafTick 0 0] start)) = 1 \<and>
   pruneSequences 1 (onClick (Some 0) (run [BadLeafTick 0 0] start)) = 0 \<and>
   leaves_ok start \<and> pruneSequences 0 (onClick (Some 0) start) = 0"
proof -
  have z: "pruneSequences j (run [BadLeafTick 0 0] start) = 0" "pruneSequences j start = 0" for j
    by (simp_all add: pruneSequences_def bad0_facts start_idle)
  have e: "0 \<notin> badLeaves start" by (simp add: start_fields)
  show ?thesis
    using click_starts_sequence_iff_bad [of "run [BadLeafTick 0 0] start" 0]
      click_starts_sequence_iff_bad [of start 0] bad0_facts leaves_ok_start e
    by (simp add: z)
qed

text \<open>
  Two clicks on the bad leaf 0 leave two prune sequences of leaf 0 in their delay.
\<close>

theorem second_click_counterexample:
  "\<not> pruneSequences 0 (run [BadLeafTick 0 0, Click (Some 0), Click (Some 0)] start) \<le> 1"
proof -
  have r: "run [BadLeafTick 0 0, Click (Some 0), Click (Some 0)] start =
      onClick (Some 0) (onClick (Some 0) (run [BadLeafTick 0 0] start))"
    by (simp add: run_def)
  have o: "onClick (Some 0) (run [BadLeafTick 0 0] start) =
      (run [BadLeafTick 0 0] start)\<lparr>leafSprings := api_start (\<lambda>idx. if idx = 0 then Some (0, Spring 180 18) else None)
                                      (leafSprings (run [BadLeafTick 0 0] start)),
             timers := [(1, 600, PruneFire 0)], nextTimer := 2\<rparr>"
    using onClick_bad [of "run [BadLeafTick 0 0] start" 0] bad0_facts
    by simp
  have k: "leaves_ok (onClick (Some 0) (run [BadLeafTick 0 0] start))"
    using bad0_facts(1) unfolding o by (simp add: leaves_ok_def length_api_start)
  have "pruneSequences 0 (onClick (Some 0) (onClick (Some 0) (run [BadLeafTick 0 0] start))) = 2"
    using onClick_bad [OF k, of 0] bad0_facts(2) unfolding o
    by (simp add: pruneSequences_def)
  then show ?thesis unfolding r by simp
qed









lemma start_gesture:
  "\<not> watering start" "\<not> holding start" "holdTimeout start = None" "wateringTimeout start = None"
  by (simp_all add: start_def mount_def init_def Let_def)

lemma orphan_state:
  "\<not> watering (run [PointerDown, PointerDown, PointerUp] start)"
  "\<not> holding (run [PointerDown, PointerDown, PointerUp] start)"
  "timers (run [PointerDown, PointerDown, PointerUp] start) = [(1, 1000, HoldFire)]"
  "now (run [PointerDown, PointerDown, PointerUp] start) = 0"
  "holdTimeout (run [PointerDown, PointerDown, PointerUp] start) = Some 2"
  "wateringTimeout (run [PointerDown, PointerDown, PointerUp] start) = None"
  "nextTimer (run [PointerDown, PointerDown, PointerUp] start) = 3"
  by (simp_all add: run_def handler_defs Let_def start_fields start_gesture)

lemma orphan_release:
  "holding_phase 1 1000 (run ([PointerDown, PointerDown, PointerUp, PointerDown]
                                @ replicate 900 Elapse @ [PointerUp]) start)"
  "now (run ([PointerDown, PointerDown, PointerUp, PointerDown]
               @ replicate 900 Elapse @ [PointerUp]) start) = 900"
proof -
  let ?s0 = "run [PointerDown, PointerDown, PointerUp] start"
  let ?s1 = "handlePlantAreaPointerDown ?s0"
  let ?s3 = "handlePlantAreaPointerUp (advance 900 ?s1)"
  have s1: "timers ?s1 = [(1, 1000, HoldFire), (3, 1000, HoldFire)]" "now ?s1 = 0"
    "holdTimeout ?s1 = Some 3" "wateringTimeout ?s1 = None" "\<not> watering ?s1"
    by (simp_all add: handler_defs Let_def orphan_state)
  have w: "advance 900 ?s1 = ?s1\<lparr>now := 900\<rparr>"
    using advance_quiet [of ?s1 900] by (simp add: s1)
  have s3: "timers ?s3 = [(1, 1000, HoldFire)]" "now ?s3 = 900" "\<not> watering ?s3"
    unfolding w by (simp_all add: handlePlantAreaPointerUp_def clearRef_timers Let_def s1)
  have r: "run ([PointerDown, PointerDown, PointerUp, PointerDown]
                  @ replicate 900 Elapse @ [PointerUp]) start = ?s3"
  proof -
    have "[PointerDown, PointerDown, PointerUp, PointerDown]
            = [PointerDown, PointerDown, PointerUp] @ [PointerDown]" by simp
    then show ?thesis by (simp only: run_append run_elapse) (simp add: run_def)
  qed
  show "holding_phase 1 1000 (run ([PointerDown, PointerDown, PointerUp, PointerDown]
                                @ replicate 900 Elapse @ [PointerUp]) start)"
    unfolding r by (simp add: holding_phase_def pendingGesture_def s3)
  show "now (run ([PointerDown, PointerDown, PointerUp, PointerDown]
               @ replicate 900 Elapse @ [PointerUp]) start) = 900"
    unfolding r by (rule s3(2))
qed

text \<open>
  C9 (evaluation at the failing input). A pointer-down does not clear the previous hold
  timeout. After two pointer-downs and one pointer-up, \<open>watering\<close> and \<open>holding\<close> are
  false but the first hold timeout is still pending; a pointer-down held 900ms and then
  released is followed by \<open>watering\<close> from 100ms up to (excluding) 1300ms after the release.
\<close>

theorem orphaned_hold_timeout_waters:
  "\<not> watering (run [PointerDown, PointerDown, PointerUp] start) \<and>
   \<not> holding (run [PointerDown, PointerDown, PointerUp] start) \<and>
   \<not> watering (run ([PointerDown, PointerDown, PointerUp, PointerDown]
                     @ replicate 900 Elapse @ [PointerUp]) start) \<and>
   \<not> watering (run (([PointerDown, PointerDown, PointerUp, PointerDown]
                      @ replicate 900 Elapse @ [PointerUp]) @ replicate 99 Elapse) start) \<and>
   watering (run (([PointerDown, PointerDown, PointerUp, PointerDown]
                    @ replicate 900 Elapse @ [PointerUp]) @ replicate 100 Elapse) start) \<and>
   watering (run (([PointerDown, PointerDown, PointerUp, PointerDown]
                    @ replicate 900 Elapse @ [PointerUp]) @ replicate 1299 Elapse) start) \<and>
   \<not> watering (run (([PointerDown, PointerDown, PointerUp, PointerDown]
                      @ replicate 900 Elapse @ [PointerUp]) @ replicate 1300 Elapse) start)"
proof -
  let ?s3 = "run ([PointerDown, PointerDown, PointerUp, PointerDown]
                    @ replicate 900 Elapse @ [PointerUp]) start"
  have t: "watering (advance n ?s3) \<longleftrightarrow> 100 \<le> n \<and> n < 1300" for n
    using holding_timeline [OF orphan_release(1), of n] orphan_release(2) by auto
  have r: "run (([PointerDown, PointerDown, PointerUp, PointerDown]
                   @ replicate 900 Elapse @ [PointerUp]) @ replicate n Elapse) start
             = advance n ?s3" for n
    by (simp only: run_append [of "[PointerDown, PointerDown, PointerUp, PointerDown]
                   @ replicate 900 Elapse @ [PointerUp]"] run_elapse)
  from t [of 0] have "\<not> watering ?s3" by simp
  then show ?thesis unfolding r t by (simp add: orphan_state)
qed

end
